theory Spec2Isabelle
  imports Main "HOL-Library.AList"
begin

section \<open>Python values and strings\<close>

text \<open>
  The module \<^verbatim>\<open>mycroft/util/log.py\<close> is a thin layer over Python's standard
  \<^verbatim>\<open>logging\<close> and \<^verbatim>\<open>inspect\<close> modules. The functions of the module itself are
  embedded in the section on the class \<^verbatim>\<open>LOG\<close>; the sections before it describe the
  library operations those functions call, following the behaviour of CPython's
  \<^verbatim>\<open>Lib/logging/__init__.py\<close> and of \<^verbatim>\<open>str.format\<close>.
\<close>

text \<open>
  Exceptions: the instances of Python's \<^verbatim>\<open>Exception\<close> class that occur here. A
  \<open>ValueError\<close> carries the level text that \<^verbatim>\<open>setLevel\<close> reports as unknown.
\<close>

datatype py_exception =
    IndexError
  | ValueError string
  | TypeError
  | OtherException string

text \<open>
  The values a configuration entry or \<^verbatim>\<open>LOG.level\<close> can hold: \<^verbatim>\<open>None\<close>, a
  boolean, an integer or a string.
\<close>

datatype py_value = PNone | PBool bool | PInt int | PStr string

fun truthy :: "py_value \<Rightarrow> bool" where
  "truthy PNone = False"
| "truthy (PBool b) = b"
| "truthy (PInt i) = (i \<noteq> 0)"
| "truthy (PStr s) = (s \<noteq> [])"

text \<open>\<^verbatim>\<open>str(n)\<close> for an integer: decimal digits, with a minus sign when negative.\<close>

definition digit_char :: "nat \<Rightarrow> char" where
  "digit_char d = ''0123456789'' ! (d mod 10)"

fun str_nat :: "nat \<Rightarrow> string" where
  "str_nat n = (if n < 10 then [digit_char n] else str_nat (n div 10) @ [digit_char (n mod 10)])"

declare str_nat.simps [simp del]

definition str_int :: "int \<Rightarrow> string" where
  "str_int i = (if i < 0 then CHR ''-'' # str_nat (nat (- i)) else str_nat (nat i))"

fun py_str :: "py_value \<Rightarrow> string" where
  "py_str PNone = ''None''"
| "py_str (PBool b) = (if b then ''True'' else ''False'')"
| "py_str (PInt i) = str_int i"
| "py_str (PStr s) = s"

text \<open>
  Padding to a minimum width, as the format specifications \<^verbatim>\<open>{:8}\<close>, \<^verbatim>\<open>{:5}\<close> and
  \<^verbatim>\<open>%03d\<close> do it: a string is aligned to the left and filled with spaces on the right,
  a number is aligned to the right and filled on the left (with spaces, or with zeros for
  \<^verbatim>\<open>%03d\<close>). A text longer than the width is kept whole.
\<close>

definition ljust :: "nat \<Rightarrow> string \<Rightarrow> string" where
  "ljust w s = s @ replicate (w - length s) CHR '' ''"

definition rjust :: "nat \<Rightarrow> string \<Rightarrow> string" where
  "rjust w s = replicate (w - length s) CHR '' '' @ s"

definition zero_pad :: "nat \<Rightarrow> nat \<Rightarrow> string" where
  "zero_pad w n = replicate (w - length (str_nat n)) CHR ''0'' @ str_nat n"

subsection \<open>The fragment of \<^verbatim>\<open>str.format\<close> used by the log line template\<close>

text \<open>
  A template is literal text with replacement fields \<^verbatim>\<open>{name}\<close> and \<^verbatim>\<open>{name:width}\<close>.
  Anything else (brace escapes, conversions, other format specifications, an unknown
  field name) is outside the fragment and yields \<open>None\<close>.
\<close>

datatype fmt_value = FStr string | FInt int

datatype fmt_piece = Literal string | Field string string

fun split_colon :: "string \<Rightarrow> string \<Rightarrow> string \<times> string" where
  "split_colon acc [] = (acc, [])"
| "split_colon acc (c # cs) = (if c = CHR '':'' then (acc, cs) else split_colon (acc @ [c]) cs)"

fun scan_format :: "bool \<Rightarrow> string \<Rightarrow> string \<Rightarrow> fmt_piece list option" where
  "scan_format in_field acc [] = (if in_field then None else Some [Literal acc])"
| "scan_format in_field acc (c # cs) =
     (if in_field then
        (if c = CHR ''}'' then
           (case scan_format False [] cs of
              None \<Rightarrow> None
            | Some ps \<Rightarrow> Some ((case split_colon [] acc of (n, spec) \<Rightarrow> Field n spec) # ps))
         else if c = CHR ''{'' then None
         else scan_format True (acc @ [c]) cs)
      else
        (if c = CHR ''{'' then
           (case scan_format True [] cs of
              None \<Rightarrow> None
            | Some ps \<Rightarrow> Some (Literal acc # ps))
         else if c = CHR ''}'' then None
         else scan_format False (acc @ [c]) cs))"

definition is_digit :: "char \<Rightarrow> bool" where
  "is_digit c = (c \<in> set ''0123456789'')"

definition digit_val :: "char \<Rightarrow> nat" where
  "digit_val c = of_char c - 48"

definition parse_width :: "string \<Rightarrow> nat option" where
  "parse_width spec =
     (if spec \<noteq> [] \<and> list_all is_digit spec \<and> hd spec \<noteq> CHR ''0''
      then Some (foldl (\<lambda>n c. 10 * n + digit_val c) 0 spec) else None)"

fun format_value :: "fmt_value \<Rightarrow> string \<Rightarrow> string option" where
  "format_value (FStr s) spec =
     (if spec = [] then Some s else map_option (\<lambda>w. ljust w s) (parse_width spec))"
| "format_value (FInt i) spec =
     (if spec = [] then Some (str_int i) else map_option (\<lambda>w. rjust w (str_int i)) (parse_width spec))"

fun render :: "(string \<times> fmt_value) list \<Rightarrow> fmt_piece list \<Rightarrow> string option" where
  "render fields [] = Some []"
| "render fields (Literal s # ps) = map_option (\<lambda>r. s @ r) (render fields ps)"
| "render fields (Field n spec # ps) =
     (case map_of fields n of
        None \<Rightarrow> None
      | Some v \<Rightarrow>
          (case format_value v spec of
             None \<Rightarrow> None
           | Some t \<Rightarrow> map_option (\<lambda>r. t @ r) (render fields ps)))"

definition str_format :: "string \<Rightarrow> (string \<times> fmt_value) list \<Rightarrow> string option" where
  "str_format template fields =
     (case scan_format False [] template of None \<Rightarrow> None | Some ps \<Rightarrow> render fields ps)"

section \<open>The standard library's logging module\<close>

text \<open>
  The part of \<^verbatim>\<open>logging\<close> that \<^verbatim>\<open>log.py\<close> calls: the two level tables,
  \<^verbatim>\<open>getLevelName\<close>, the registry behind \<^verbatim>\<open>getLogger\<close>, \<^verbatim>\<open>Logger.addHandler\<close>,
  \<^verbatim>\<open>Logger.setLevel\<close>, and the path of a severity method from \<^verbatim>\<open>isEnabledFor\<close> to
  the handlers. Filters, \<^verbatim>\<open>logging.disable\<close> and the \<^verbatim>\<open>disabled\<close> flag are left out:
  nothing in \<^verbatim>\<open>log.py\<close> sets them. The percent-interpolation of message arguments is
  left out as well: a message is the text that results from it.
\<close>

definition levelToName :: "(int \<times> string) list" where
  "levelToName =
     [(50, ''CRITICAL''), (40, ''ERROR''), (30, ''WARNING''), (20, ''INFO''),
      (10, ''DEBUG''), (0, ''NOTSET'')]"

definition nameToLevel :: "(string \<times> int) list" where
  "nameToLevel =
     [(''CRITICAL'', 50), (''FATAL'', 50), (''ERROR'', 40), (''WARN'', 30),
      (''WARNING'', 30), (''INFO'', 20), (''DEBUG'', 10), (''NOTSET'', 0)]"

text \<open>A boolean is an integer as a dictionary key (\<^verbatim>\<open>True == 1\<close>).\<close>

fun int_key :: "py_value \<Rightarrow> int option" where
  "int_key (PInt i) = Some i"
| "int_key (PBool b) = Some (if b then 1 else 0)"
| "int_key _ = None"

fun str_key :: "py_value \<Rightarrow> string option" where
  "str_key (PStr s) = Some s"
| "str_key _ = None"

text \<open>
  \<^verbatim>\<open>getLevelName(level)\<close>: the name of a known number, else the number of a known name,
  else the string \<^verbatim>\<open>"Level %s" % level\<close>.
\<close>

definition getLevelName :: "py_value \<Rightarrow> py_value" where
  "getLevelName lvl =
     (case Option.bind (int_key lvl) (map_of levelToName) of
        Some n \<Rightarrow> PStr n
      | None \<Rightarrow>
          (case Option.bind (str_key lvl) (map_of nameToLevel) of
             Some i \<Rightarrow> PInt i
           | None \<Rightarrow> PStr (''Level '' @ py_str lvl)))"

text \<open>
  \<^verbatim>\<open>_checkLevel(level)\<close>, called by \<^verbatim>\<open>setLevel\<close>: an integer passes, a string must be
  a key of the name table (\<^verbatim>\<open>ValueError\<close> otherwise), anything else is a
  \<^verbatim>\<open>TypeError\<close>.
\<close>

fun checkLevel :: "py_value \<Rightarrow> py_exception + int" where
  "checkLevel (PInt i) = Inr i"
| "checkLevel (PBool b) = Inr (if b then 1 else 0)"
| "checkLevel (PStr s) =
     (case map_of nameToLevel s of
        None \<Rightarrow> Inl (ValueError s)
      | Some i \<Rightarrow> Inr i)"
| "checkLevel PNone = Inl TypeError"

text \<open>
  Handlers. \<open>LOG_handler\<close> is the one handler the class \<^verbatim>\<open>LOG\<close> creates, a
  \<^verbatim>\<open>StreamHandler\<close> on standard output with the class's formatter; any other handler
  writes somewhere else.
\<close>

datatype handler = LOG_handler | Foreign_handler nat

record logger =
  level :: int
  propagate :: bool
  handlers :: "handler list"

text \<open>A fresh \<^verbatim>\<open>Logger\<close>: level \<^verbatim>\<open>NOTSET\<close>, propagating, no handlers.\<close>

definition new_logger :: logger where
  "new_logger = \<lparr>level = 0, propagate = True, handlers = []\<rparr>"

datatype logger_ref = Root | Named string

text \<open>
  The state of the process as far as this module is concerned: the two class attributes of
  \<^verbatim>\<open>LOG\<close> that change, the root logger, the registry \<^verbatim>\<open>Manager.loggerDict\<close>, and the
  lines written to standard output. The registry is kept in three parts: \<open>loggerDict\<close>
  holds the entries that are loggers, \<open>placeholders\<close> the entries that are
  \<^verbatim>\<open>PlaceHolder\<close> objects (each with the names of the loggers in its \<^verbatim>\<open>loggerMap\<close>), and
  \<open>parents\<close> the \<^verbatim>\<open>parent\<close> attribute of every named logger. A name is in
  \<^verbatim>\<open>Manager.loggerDict\<close> when it is in \<open>loggerDict\<close> or in \<open>placeholders\<close>.
\<close>

record state =
  custom_name :: "string option"
  LOG_level :: py_value
  root :: logger
  loggerDict :: "(string \<times> logger) list"
  parents :: "(string \<times> logger_ref) list"
  placeholders :: "(string \<times> string list) list"
  stdout :: "string list"

fun lookup_logger :: "state \<Rightarrow> logger_ref \<Rightarrow> logger option" where
  "lookup_logger st Root = Some (root st)"
| "lookup_logger st (Named n) = map_of (loggerDict st) n"

fun modify_logger :: "logger_ref \<Rightarrow> (logger \<Rightarrow> logger) \<Rightarrow> state \<Rightarrow> state" where
  "modify_logger Root f st = st\<lparr>root := f (root st)\<rparr>"
| "modify_logger (Named n) f st = st\<lparr>loggerDict := AList.map_entry n f (loggerDict st)\<rparr>"

fun logger_name :: "logger_ref \<Rightarrow> string" where
  "logger_name Root = ''root''"
| "logger_name (Named n) = n"

text \<open>The \<^verbatim>\<open>parent\<close> of a named logger; a logger without an entry hangs on the root.\<close>

definition parent_of :: "state \<Rightarrow> string \<Rightarrow> logger_ref" where
  "parent_of st n = (case map_of (parents st) n of Some r \<Rightarrow> r | None \<Rightarrow> Root)"

subsection \<open>The logger hierarchy\<close>

text \<open>
  \<^verbatim>\<open>s.rfind(".")\<close>: the index of the last dot, or \<open>-1\<close>. The call
  \<^verbatim>\<open>name.rfind(".", 0, k)\<close> is \<open>rfind_dot (take k name)\<close>.
\<close>

fun rfind_dot :: "string \<Rightarrow> int" where
  "rfind_dot [] = - 1"
| "rfind_dot (c # cs) =
     (if 0 \<le> rfind_dot cs then rfind_dot cs + 1 else if c = CHR ''.'' then 0 else - 1)"

lemma rfind_dot_less: "rfind_dot s < int (length s)"
  by (induction s) auto

text \<open>
  The loop of \<^verbatim>\<open>Manager._fixupParents\<close>:
  \<^verbatim>\<open>while (i > 0) and not rv\<close> looks at \<^verbatim>\<open>name[:i]\<close>; a logger of that name is the
  parent and ends the loop, a placeholder gets the new logger appended, a name not in the
  registry gets a placeholder; then \<^verbatim>\<open>i = name.rfind(".", 0, i - 1)\<close>. Without a parent
  found the parent is the root logger.
\<close>

function fixup_from :: "string \<Rightarrow> int \<Rightarrow> state \<Rightarrow> logger_ref \<times> state" where
  "fixup_from name i st =
     (if 0 < i then
        (let substr = take (nat i) name in
         case map_of (loggerDict st) substr of
           Some obj \<Rightarrow> (Named substr, st)
         | None \<Rightarrow>
             fixup_from name (rfind_dot (take (nat (i - 1)) name))
               (case map_of (placeholders st) substr of
                  None \<Rightarrow> st\<lparr>placeholders := placeholders st @ [(substr, [name])]\<rparr>
                | Some children \<Rightarrow>
                    st\<lparr>placeholders :=
                         AList.update substr
                           (if name \<in> set children then children else children @ [name])
                           (placeholders st)\<rparr>))
      else (Root, st))"
  by pat_completeness auto

termination
proof (relation "measure (\<lambda>(name, i, st). nat i)")
  show "wf (measure (\<lambda>(name, i, st). nat i))" by simp
next
  fix name :: string and i :: int and st :: state and x x2
  assume "0 < i"
  moreover have "rfind_dot (take (nat (i - 1)) name) < int (length (take (nat (i - 1)) name))"
    by (rule rfind_dot_less)
  ultimately show "((name, rfind_dot (take (nat (i - 1)) name),
        case map_of (placeholders st) x of
          None \<Rightarrow> st\<lparr>placeholders := placeholders st @ [(x, [name])]\<rparr>
        | Some children \<Rightarrow>
            st\<lparr>placeholders :=
                 AList.update x (if name \<in> set children then children else children @ [name])
                   (placeholders st)\<rparr>),
       name, i, st) \<in> measure (\<lambda>(name, i, st). nat i)"
    by simp
qed

declare fixup_from.simps [simp del]

text \<open>\<^verbatim>\<open>Manager._fixupParents(alogger)\<close>, for the logger of the given name.\<close>

definition fixupParents :: "string \<Rightarrow> state \<Rightarrow> state" where
  "fixupParents name st =
     (case fixup_from name (rfind_dot name) st of
        (rv, st1) \<Rightarrow> st1\<lparr>parents := AList.update name rv (parents st1)\<rparr>)"

text \<open>
  \<^verbatim>\<open>Manager._fixupChildren(ph, alogger)\<close>: every logger \<open>c\<close> of the placeholder whose
  parent's name does not start with the new logger's name gets the new logger as parent:
  \<^verbatim>\<open>if c.parent.name[:namelen] != name: alogger.parent = c.parent; c.parent = alogger\<close>.
\<close>

definition fixupChildren :: "string list \<Rightarrow> string \<Rightarrow> state \<Rightarrow> state" where
  "fixupChildren children name st =
     fold (\<lambda>c s.
        if take (length name) (logger_name (parent_of s c)) \<noteq> name
        then s\<lparr>parents := AList.update c (Named name)
                            (AList.update name (parent_of s c) (parents s))\<rparr>
        else s) children st"

text \<open>
  \<^verbatim>\<open>logging.getLogger(name)\<close>: the root logger for an empty name (and, from Python 3.9
  on, for the root logger's own name \<^verbatim>\<open>root\<close>), else \<^verbatim>\<open>Manager.getLogger(name)\<close>: the
  logger of that name if there is one; else a new logger, which takes the place of a
  placeholder of that name (\<^verbatim>\<open>_fixupChildren\<close>, then \<^verbatim>\<open>_fixupParents\<close>) or is added to
  the registry (\<^verbatim>\<open>_fixupParents\<close>).
\<close>

definition getLogger :: "string \<Rightarrow> state \<Rightarrow> logger_ref \<times> state" where
  "getLogger name st =
     (if name = [] \<or> name = ''root'' then (Root, st)
      else (case map_of (loggerDict st) name of
              Some lg \<Rightarrow> (Named name, st)
            | None \<Rightarrow>
                (case map_of (placeholders st) name of
                   Some children \<Rightarrow>
                     (Named name,
                      fixupParents name
                        (fixupChildren children name
                           (st\<lparr>loggerDict := loggerDict st @ [(name, new_logger)],
                               placeholders := AList.delete name (placeholders st)\<rparr>)))
                 | None \<Rightarrow>
                     (Named name,
                      fixupParents name
                        (st\<lparr>loggerDict := loggerDict st @ [(name, new_logger)]\<rparr>)))))"

text \<open>
  \<^verbatim>\<open>Logger.addHandler(hdlr)\<close>:
  \<^verbatim>\<open>if not (hdlr in self.handlers): self.handlers.append(hdlr)\<close>.
\<close>

definition addHandler :: "logger_ref \<Rightarrow> handler \<Rightarrow> state \<Rightarrow> state" where
  "addHandler lg h st =
     modify_logger lg
       (\<lambda>l. if h \<in> set (handlers l) then l else l\<lparr>handlers := handlers l @ [h]\<rparr>) st"

definition setLevel :: "logger_ref \<Rightarrow> py_value \<Rightarrow> state \<Rightarrow> (py_exception + unit) \<times> state" where
  "setLevel lg lvl st =
     (case checkLevel lvl of
        Inl e \<Rightarrow> (Inl e, st)
      | Inr n \<Rightarrow> (Inr (), modify_logger lg (\<lambda>l. l\<lparr>level := n\<rparr>) st))"

text \<open>
  The loggers from a logger to the root along the \<^verbatim>\<open>parent\<close> attributes, as the loops
  \<^verbatim>\<open>while logger: ... logger = logger.parent\<close> of \<^verbatim>\<open>getEffectiveLevel\<close> and
  \<^verbatim>\<open>callHandlers\<close> visit them. The registry only ever gives a logger a parent whose name
  is a proper prefix of its own, so the walk ends; the test on the lengths makes that
  evident for every state.
\<close>

function chain :: "state \<Rightarrow> logger_ref \<Rightarrow> logger list" where
  "chain st Root = [root st]"
| "chain st (Named n) =
     (case map_of (loggerDict st) n of Some l \<Rightarrow> [l] | None \<Rightarrow> []) @
     (case parent_of st n of
        Root \<Rightarrow> [root st]
      | Named p \<Rightarrow> if length p < length n then chain st (Named p) else [root st])"
  by pat_completeness auto

termination
  by (relation "measure (\<lambda>(st, lg). length (logger_name lg))") auto

text \<open>\<^verbatim>\<open>Logger.getEffectiveLevel\<close>: the first level that is set on the way to the root.\<close>

definition getEffectiveLevel :: "state \<Rightarrow> logger_ref \<Rightarrow> int" where
  "getEffectiveLevel st lg =
     (case filter (\<lambda>l. level l \<noteq> 0) (chain st lg) of [] \<Rightarrow> 0 | l # ls \<Rightarrow> level l)"

definition isEnabledFor :: "state \<Rightarrow> logger_ref \<Rightarrow> int \<Rightarrow> bool" where
  "isEnabledFor st lg lvl = (getEffectiveLevel st lg \<le> lvl)"

text \<open>
  \<^verbatim>\<open>Logger.callHandlers\<close>: the handlers of the logger, then those of each ancestor as long
  as the loggers before it propagate.
\<close>

fun reached_handlers :: "logger list \<Rightarrow> handler list" where
  "reached_handlers [] = []"
| "reached_handlers (l # ls) = handlers l @ (if propagate l then reached_handlers ls else [])"

subsection \<open>Records, formatting and the severity methods\<close>

text \<open>
  What a call reads from its surroundings: the stack as \<^verbatim>\<open>inspect.stack()\<close> returns it
  inside \<^verbatim>\<open>LOG._log\<close> (or the exception it raises), \<^verbatim>\<open>inspect.getmodule\<close> (a module is
  represented by its \<^verbatim>\<open>__name__\<close>), the clock (the time formatted to the second, and
  the milliseconds), the process id, and the text of the exception being handled, which
  \<^verbatim>\<open>Logger.exception\<close> appends.
\<close>

record frame_info =
  frame :: nat
  filename :: string
  lineno :: int
  func_name :: string

record env =
  inspect_stack :: "py_exception + frame_info list"
  getmodule :: "nat \<Rightarrow> py_exception + string option"
  asctime_sec :: string
  msecs :: nat
  process :: nat
  exc_text :: string

datatype log_fn = Logger_debug | Logger_info | Logger_warning | Logger_error | Logger_exception

fun levelno :: "log_fn \<Rightarrow> int" where
  "levelno Logger_debug = 10"
| "levelno Logger_info = 20"
| "levelno Logger_warning = 30"
| "levelno Logger_error = 40"
| "levelno Logger_exception = 40"

definition level_name :: "int \<Rightarrow> string" where
  "level_name i = py_str (getLevelName (PInt i))"

text \<open>
  The class attributes \<^verbatim>\<open>LOG.log_message_format\<close> and
  \<^verbatim>\<open>formatter.default_msec_format = '%s.%03d'\<close>.
\<close>

definition log_message_format :: string where
  "log_message_format = ''{asctime} | {levelname:8} | {process:5} | {name} | {message}''"

definition formatTime :: "env \<Rightarrow> string" where
  "formatTime e = asctime_sec e @ ''.'' @ zero_pad 3 (msecs e)"

definition record_fields :: "env \<Rightarrow> string \<Rightarrow> int \<Rightarrow> string \<Rightarrow> (string \<times> fmt_value) list" where
  "record_fields e name lvl msg =
     [(''asctime'', FStr (formatTime e)),
      (''levelname'', FStr (level_name lvl)),
      (''process'', FInt (int (process e))),
      (''name'', FStr name),
      (''message'', FStr msg)]"

text \<open>
  \<^verbatim>\<open>Formatter.format\<close>: the template filled in; for \<^verbatim>\<open>Logger.exception\<close> the text of
  the exception follows on a new line.
\<close>

definition Formatter_format :: "env \<Rightarrow> string \<Rightarrow> log_fn \<Rightarrow> string \<Rightarrow> string option" where
  "Formatter_format e name fn msg =
     (case str_format log_message_format (record_fields e name (levelno fn) msg) of
        None \<Rightarrow> None
      | Some s \<Rightarrow>
          Some (if fn = Logger_exception \<and> exc_text e \<noteq> []
                then (if s = [] \<or> last s \<noteq> CHR 0x0A then s @ [CHR 0x0A] else s) @ exc_text e
                else s))"

text \<open>
  \<open>LOG_handler\<close> keeps the level \<^verbatim>\<open>NOTSET\<close> it is created with. A record it handles
  becomes one write to standard output; a record whose formatting fails is not written.
\<close>

definition LOG_handler_level :: int where
  "LOG_handler_level = 0"

fun handle :: "env \<Rightarrow> string \<Rightarrow> log_fn \<Rightarrow> string \<Rightarrow> handler \<Rightarrow> state \<Rightarrow> state" where
  "handle e name fn msg LOG_handler st =
     (if LOG_handler_level \<le> levelno fn then
        (case Formatter_format e name fn msg of
           None \<Rightarrow> st
         | Some s \<Rightarrow> st\<lparr>stdout := stdout st @ [s]\<rparr>)
      else st)"
| "handle e name fn msg (Foreign_handler k) st = st"

definition callHandlers :: "env \<Rightarrow> log_fn \<Rightarrow> string \<Rightarrow> logger_ref \<Rightarrow> state \<Rightarrow> state" where
  "callHandlers e fn msg lg st =
     fold (handle e (logger_name lg) fn msg) (reached_handlers (chain st lg)) st"

text \<open>
  \<^verbatim>\<open>Logger.debug\<close>, \<^verbatim>\<open>info\<close>, \<^verbatim>\<open>warning\<close>, \<^verbatim>\<open>error\<close> and \<^verbatim>\<open>exception\<close>, called on a
  logger: \<^verbatim>\<open>if self.isEnabledFor(LEVEL): self._log(LEVEL, msg, args)\<close>.
\<close>

definition Logger_call :: "log_fn \<Rightarrow> env \<Rightarrow> string \<Rightarrow> logger_ref \<Rightarrow> state \<Rightarrow> state" where
  "Logger_call fn e msg lg st =
     (if isEnabledFor st lg (levelno fn) then callHandlers e fn msg lg st else st)"

section \<open>The class \<^verbatim>\<open>LOG\<close> of \<^verbatim>\<open>mycroft/util/log.py\<close>\<close>

text \<open>
  The state when the module has been imported: \<^verbatim>\<open>_custom_name = None\<close>,
  \<^verbatim>\<open>level = logging.getLevelName('INFO')\<close>, and the logging library as it starts (a root
  logger at \<^verbatim>\<open>WARNING\<close> without handlers, an empty registry).
\<close>

definition initial_state :: state where
  "initial_state =
     \<lparr>custom_name = None,
      LOG_level = getLevelName (PStr ''INFO''),
      root = \<lparr>level = 30, propagate = True, handlers = []\<rparr>,
      loggerDict = [],
      parents = [],
      placeholders = [],
      stdout = []\<rparr>"

text \<open>\<^verbatim>\<open>LOG.create_logger(name)\<close>.\<close>

definition LOG_create_logger :: "string \<Rightarrow> state \<Rightarrow> logger_ref \<times> state" where
  "LOG_create_logger name st =
     (case getLogger name st of
        (lg, st1) \<Rightarrow>
          (lg, addHandler lg LOG_handler (modify_logger lg (\<lambda>l. l\<lparr>propagate := False\<rparr>) st1)))"

text \<open>
  \<^verbatim>\<open>LOG.init()\<close>. The mapping that \<^verbatim>\<open>Configuration.get()\<close> returns is the parameter
  \<open>config\<close>. An exception leaves the assignments made before it in place.
\<close>

definition LOG_init :: "(string \<rightharpoonup> py_value) \<Rightarrow> state \<Rightarrow> (py_exception + unit) \<times> state" where
  "LOG_init config st =
     (let configured = (case config ''log_level'' of None \<Rightarrow> PStr ''INFO'' | Some v \<Rightarrow> v);
          lvl = getLevelName (if truthy configured then configured else PStr ''INFO'');
          st1 = st\<lparr>LOG_level := lvl\<rparr>
      in case LOG_create_logger [] st1 of (lg, st2) \<Rightarrow> setLevel lg lvl st2)"

text \<open>\<^verbatim>\<open>LOG.__init__(self, name)\<close>, that is the expression \<^verbatim>\<open>LOG(name)\<close>.\<close>

definition LOG_new :: "string option \<Rightarrow> state \<Rightarrow> state" where
  "LOG_new name st = st\<lparr>custom_name := name\<rparr>"

text \<open>
  The body of the \<^verbatim>\<open>try\<close> in \<^verbatim>\<open>LOG._log\<close>: the third entry of the stack, its module,
  and the name built from them. \<^verbatim>\<open>stack[2]\<close> raises \<^verbatim>\<open>IndexError\<close> on a shorter stack.
\<close>

definition caller_name :: "env \<Rightarrow> py_exception + string" where
  "caller_name e =
     (case inspect_stack e of
        Inl ex \<Rightarrow> Inl ex
      | Inr stack \<Rightarrow>
          (if length stack \<le> 2 then Inl IndexError
           else (let record = stack ! 2 in
                 case getmodule e (frame record) of
                   Inl ex \<Rightarrow> Inl ex
                 | Inr module \<Rightarrow>
                     (let module_name = (case module of Some m \<Rightarrow> m | None \<Rightarrow> [])
                      in Inr (module_name @ '':'' @ func_name record @ '':'' @ str_int (lineno record))))))"

text \<open>
  The first half of \<^verbatim>\<open>LOG._log\<close>: the name, and the state with the override cleared if
  there was one.
\<close>

definition resolve_name :: "env \<Rightarrow> state \<Rightarrow> string \<times> state" where
  "resolve_name e st =
     (case custom_name st of
        Some name \<Rightarrow> (name, st\<lparr>custom_name := None\<rparr>)
      | None \<Rightarrow> (case caller_name e of Inr name \<Rightarrow> (name, st) | Inl ex \<Rightarrow> (''HolmesV'', st)))"

text \<open>\<^verbatim>\<open>LOG._log(func, msg)\<close>: \<^verbatim>\<open>func(cls.create_logger(name), msg)\<close>.\<close>

definition LOG_log :: "log_fn \<Rightarrow> env \<Rightarrow> string \<Rightarrow> state \<Rightarrow> state" where
  "LOG_log func e msg st =
     (case resolve_name e st of
        (name, st1) \<Rightarrow>
          (case LOG_create_logger name st1 of (lg, st2) \<Rightarrow> Logger_call func e msg lg st2))"

text \<open>
  \<^verbatim>\<open>_make_log_method(fn)\<close> and the five class methods made with it. The method's own
  frame is entry 1 of the stack that \<^verbatim>\<open>_log\<close> sees, its caller's frame entry 2.
\<close>

definition make_log_method :: "log_fn \<Rightarrow> env \<Rightarrow> string \<Rightarrow> state \<Rightarrow> state" where
  "make_log_method fn e msg st = LOG_log fn e msg st"

definition LOG_debug :: "env \<Rightarrow> string \<Rightarrow> state \<Rightarrow> state" where
  "LOG_debug = make_log_method Logger_debug"

definition LOG_info :: "env \<Rightarrow> string \<Rightarrow> state \<Rightarrow> state" where
  "LOG_info = make_log_method Logger_info"

definition LOG_warning :: "env \<Rightarrow> string \<Rightarrow> state \<Rightarrow> state" where
  "LOG_warning = make_log_method Logger_warning"

definition LOG_error :: "env \<Rightarrow> string \<Rightarrow> state \<Rightarrow> state" where
  "LOG_error = make_log_method Logger_error"

definition LOG_exception :: "env \<Rightarrow> string \<Rightarrow> state \<Rightarrow> state" where
  "LOG_exception = make_log_method Logger_exception"

section \<open>Notions used to state the properties\<close>

text \<open>
  What \<^verbatim>\<open>create_logger\<close> does to the logger it returns: propagation off, and the shared
  handler attached through \<^verbatim>\<open>addHandler\<close>.
\<close>

definition attach :: "logger \<Rightarrow> logger" where
  "attach l =
     (if LOG_handler \<in> set (handlers l) then l\<lparr>propagate := False\<rparr>
      else l\<lparr>propagate := False, handlers := handlers l @ [LOG_handler]\<rparr>)"

text \<open>
  The states the process reaches when only this module touches the logging library: from
  the state after the import, by \<^verbatim>\<open>LOG(name)\<close>, by the severity methods and by
  \<^verbatim>\<open>LOG.init()\<close> (whether it returns or raises).
\<close>

inductive reachable :: "state \<Rightarrow> bool" where
  start: "reachable initial_state"
| construct: "reachable st \<Longrightarrow> reachable (LOG_new name st)"
| call: "reachable st \<Longrightarrow> reachable (make_log_method fn e msg st)"
| initialise: "reachable st \<Longrightarrow> reachable (snd (LOG_init config st))"


text \<open>
  The invariant of the reachable states: no named logger has a level of its own, and no
  logger holds the shared handler twice.
\<close>

definition facade_only :: "state \<Rightarrow> bool" where
  "facade_only st \<longleftrightarrow>
     count_list (handlers (root st)) LOG_handler \<le> 1 \<and>
     list_all (\<lambda>l. level l = 0 \<and> count_list (handlers l) LOG_handler \<le> 1)
       (map snd (loggerDict st))"

text \<open>
  Environments for the examples. In \<open>caller_env\<close> the function \<^verbatim>\<open>myfunc\<close> of the
  module \<^verbatim>\<open>mymod\<close> calls a severity method at line 42. In \<open>no_module_env\<close> the same call
  comes from a frame without a module, in \<open>failing_env\<close> the lookup of the module raises,
  and in \<open>big_pid_env\<close> the process id has six digits.
\<close>

definition caller_stack :: "frame_info list" where
  "caller_stack =
     [\<lparr>frame = 0, filename = ''log.py'', lineno = 112, func_name = ''_log''\<rparr>,
      \<lparr>frame = 1, filename = ''log.py'', lineno = 45, func_name = ''method''\<rparr>,
      \<lparr>frame = 2, filename = ''mymod.py'', lineno = 42, func_name = ''myfunc''\<rparr>]"

definition caller_env :: env where
  "caller_env =
     \<lparr>inspect_stack = Inr caller_stack,
      getmodule = (\<lambda>f. Inr (if f = 2 then Some ''mymod'' else Some ''mycroft.util.log'')),
      asctime_sec = ''2021-03-04 05:06:07'', msecs = 8, process = 1234,
      exc_text = ''NoneType: None''\<rparr>"

definition no_module_env :: env where
  "no_module_env = caller_env\<lparr>getmodule := (\<lambda>f. Inr None)\<rparr>"

definition failing_env :: env where
  "failing_env = caller_env\<lparr>getmodule := (\<lambda>f. Inl (OtherException ''ImportError''))\<rparr>"







section \<open>Properties\<close>

subsection \<open>Filling in the template\<close>

lemma scan_template:
  "scan_format False [] log_message_format =
     Some [Literal [], Field ''asctime'' [], Literal '' | '', Field ''levelname'' ''8'',
           Literal '' | '', Field ''process'' ''5'', Literal '' | '', Field ''name'' [],
           Literal '' | '', Field ''message'' [], Literal []]"
  by (simp add: log_message_format_def)

lemma parse_width_8: "parse_width ''8'' = Some 8"
  by (simp add: parse_width_def is_digit_def digit_val_def)

lemma parse_width_5: "parse_width ''5'' = Some 5"
  by (simp add: parse_width_def is_digit_def digit_val_def)

lemma template_line:
  "str_format log_message_format (record_fields e name lvl msg) =
     Some (formatTime e @ '' | '' @ ljust 8 (level_name lvl) @ '' | '' @
           rjust 5 (str_int (int (process e))) @ '' | '' @ name @ '' | '' @ msg)"
  by (simp add: str_format_def scan_template record_fields_def parse_width_8 parse_width_5)



lemma fold_handle:
  "Formatter_format e name fn msg = Some s \<Longrightarrow>
   fold (handle e name fn msg) hs st = st\<lparr>stdout := stdout st @ replicate (count_list hs LOG_handler) s\<rparr>"
proof (induction hs arbitrary: st)
  case Nil
  then show ?case by simp
next
  case (Cons h hs)
  have lv: "LOG_handler_level \<le> levelno fn"
    by (cases fn) (simp_all add: LOG_handler_level_def)
  show ?case
  proof (cases h)
    case LOG_handler
    then show ?thesis using Cons lv by (simp add: replicate_app_Cons_same)
  next
    case (Foreign_handler k)
    then show ?thesis using Cons by simp
  qed
qed

subsection \<open>The registry of loggers\<close>

lemma map_of_map_entry:
  "map_of (AList.map_entry k f al) k' =
     (if k' = k then map_option f (map_of al k) else map_of al k')"
  by (induction al) auto

lemma lookup_modify:
  "lookup_logger (modify_logger lg f st) lg' =
     (if lg' = lg then map_option f (lookup_logger st lg) else lookup_logger st lg')"
  by (cases lg; cases lg') (simp_all add: map_of_map_entry)

lemma state_unchanged:
  "\<exists>ph. st = st\<lparr>placeholders := ph\<rparr>"
  "\<exists>ps. st = st\<lparr>parents := ps\<rparr>"
  "\<exists>ps ph. st = st\<lparr>parents := ps, placeholders := ph\<rparr>"
proof -
  show "\<exists>ph. st = st\<lparr>placeholders := ph\<rparr>"
    by (rule exI [of _ "placeholders st"]) simp
  show "\<exists>ps. st = st\<lparr>parents := ps\<rparr>"
    by (rule exI [of _ "parents st"]) simp
  have "st = st\<lparr>parents := parents st, placeholders := placeholders st\<rparr>" by simp
  then show "\<exists>ps ph. st = st\<lparr>parents := ps, placeholders := ph\<rparr>" by blast
qed

lemma fixup_from_shape: "\<exists>ph. snd (fixup_from name i st) = st\<lparr>placeholders := ph\<rparr>"
proof (induction name i st rule: fixup_from.induct)
  case (1 name i st)
  show ?case
  proof (cases "0 < i \<and> map_of (loggerDict st) (take (nat i) name) = None")
    case False
    show ?thesis
      using False
      by (subst fixup_from.simps) (auto simp: Let_def state_unchanged split: option.splits)
  next
    case True
    let ?st1 = "case map_of (placeholders st) (take (nat i) name) of
                  None \<Rightarrow> st\<lparr>placeholders := placeholders st @ [(take (nat i) name, [name])]\<rparr>
                | Some children \<Rightarrow>
                    st\<lparr>placeholders :=
                         AList.update (take (nat i) name)
                           (if name \<in> set children then children else children @ [name])
                           (placeholders st)\<rparr>"
    obtain ph where ph: "snd (fixup_from name (rfind_dot (take (nat (i - 1)) name)) ?st1) =
        ?st1\<lparr>placeholders := ph\<rparr>"
      using "1.IH" [of "take (nat i) name"] True by auto
    have "?st1\<lparr>placeholders := ph\<rparr> = st\<lparr>placeholders := ph\<rparr>"
      by (simp split: option.splits)
    then have "snd (fixup_from name i st) = st\<lparr>placeholders := ph\<rparr>"
      using True ph by (subst fixup_from.simps) (simp add: Let_def)
    then show ?thesis by blast
  qed
qed

lemma fixupParents_shape:
  "\<exists>ps ph. fixupParents name st = st\<lparr>parents := ps, placeholders := ph\<rparr>"
proof -
  obtain ph where "snd (fixup_from name (rfind_dot name) st) = st\<lparr>placeholders := ph\<rparr>"
    using fixup_from_shape by blast
  then have "fixupParents name st =
      st\<lparr>parents := AList.update name (fst (fixup_from name (rfind_dot name) st)) (parents st),
         placeholders := ph\<rparr>"
    by (simp add: fixupParents_def case_prod_beta)
  then show ?thesis by blast
qed

lemma fixupChildren_shape: "\<exists>ps. fixupChildren children name st = st\<lparr>parents := ps\<rparr>"
proof (induction children arbitrary: st)
  case Nil
  show ?case by (simp add: fixupChildren_def state_unchanged)
next
  case (Cons c cs)
  let ?st1 = "if take (length name) (logger_name (parent_of st c)) \<noteq> name
        then st\<lparr>parents := AList.update c (Named name)
                            (AList.update name (parent_of st c) (parents st))\<rparr>
        else st"
  obtain ps where "fixupChildren cs name ?st1 = ?st1\<lparr>parents := ps\<rparr>"
    using Cons [of ?st1] by blast
  then have "fixupChildren (c # cs) name st = st\<lparr>parents := ps\<rparr>"
    by (simp add: fixupChildren_def)
  then show ?case by blast
qed

lemma getLogger_ref: "fst (getLogger name st) = (if name = [] \<or> name = ''root'' then Root else Named name)"
  by (simp add: getLogger_def split: option.splits)

lemma getLogger_shape:
  "\<exists>ps ph. snd (getLogger name st) =
     st\<lparr>loggerDict :=
          (if name = [] \<or> name = ''root'' \<or> map_of (loggerDict st) name \<noteq> None
           then loggerDict st else loggerDict st @ [(name, new_logger)]),
        parents := ps, placeholders := ph\<rparr>"
proof (cases "name = [] \<or> name = ''root'' \<or> map_of (loggerDict st) name \<noteq> None")
  case True
  show ?thesis
    using True by (auto simp: getLogger_def state_unchanged split: option.splits)
next
  case False
  let ?st1 = "st\<lparr>loggerDict := loggerDict st @ [(name, new_logger)]\<rparr>"
  show ?thesis
  proof (cases "map_of (placeholders st) name")
    case None
    obtain ps ph where "fixupParents name ?st1 = ?st1\<lparr>parents := ps, placeholders := ph\<rparr>"
      using fixupParents_shape by blast
    then show ?thesis
      using False None by (auto simp: getLogger_def)
  next
    case (Some children)
    let ?st2 = "?st1\<lparr>placeholders := AList.delete name (placeholders st)\<rparr>"
    obtain ps1 where c: "fixupChildren children name ?st2 = ?st2\<lparr>parents := ps1\<rparr>"
      using fixupChildren_shape by blast
    obtain ps ph where "fixupParents name (?st2\<lparr>parents := ps1\<rparr>) =
        ?st2\<lparr>parents := ps1\<rparr>\<lparr>parents := ps, placeholders := ph\<rparr>"
      using fixupParents_shape by blast
    then show ?thesis
      using False Some c by (auto simp: getLogger_def)
  qed
qed

lemma getLogger_lookup:
  "lookup_logger (snd (getLogger name st)) (fst (getLogger name st)) =
     Some (case lookup_logger st (fst (getLogger name st)) of Some l \<Rightarrow> l | None \<Rightarrow> new_logger)"
proof -
  obtain ps ph where "snd (getLogger name st) =
     st\<lparr>loggerDict :=
          (if name = [] \<or> name = ''root'' \<or> map_of (loggerDict st) name \<noteq> None
           then loggerDict st else loggerDict st @ [(name, new_logger)]),
        parents := ps, placeholders := ph\<rparr>"
    using getLogger_shape by blast
  then show ?thesis
    by (auto simp: getLogger_ref map_add_def split: option.splits)
qed

lemma getLogger_other:
  "lg \<noteq> fst (getLogger name st) \<Longrightarrow> lookup_logger (snd (getLogger name st)) lg = lookup_logger st lg"
proof -
  assume a: "lg \<noteq> fst (getLogger name st)"
  obtain ps ph where "snd (getLogger name st) =
     st\<lparr>loggerDict :=
          (if name = [] \<or> name = ''root'' \<or> map_of (loggerDict st) name \<noteq> None
           then loggerDict st else loggerDict st @ [(name, new_logger)]),
        parents := ps, placeholders := ph\<rparr>"
    using getLogger_shape by blast
  then show ?thesis
    using a by (cases lg) (auto simp: getLogger_ref map_add_def split: option.splits if_splits)
qed

lemma create_logger_ref: "fst (LOG_create_logger name st) = fst (getLogger name st)"
  by (simp add: LOG_create_logger_def split: prod.splits)

lemma create_logger_lookup:
  "lookup_logger (snd (LOG_create_logger name st)) (fst (LOG_create_logger name st)) =
     Some (attach (case lookup_logger st (fst (getLogger name st)) of Some l \<Rightarrow> l | None \<Rightarrow> new_logger))"
  using getLogger_lookup [of name st]
  by (auto simp: LOG_create_logger_def addHandler_def lookup_modify attach_def split: prod.splits)

lemma create_logger_other:
  "lg \<noteq> fst (getLogger name st) \<Longrightarrow>
   lookup_logger (snd (LOG_create_logger name st)) lg = lookup_logger st lg"
  using getLogger_other [of lg name st]
  by (auto simp: LOG_create_logger_def addHandler_def lookup_modify split: prod.splits)

lemma modify_fields [simp]:
  "custom_name (modify_logger lg f st) = custom_name st"
  "LOG_level (modify_logger lg f st) = LOG_level st"
  "stdout (modify_logger lg f st) = stdout st"
  by (cases lg; simp)+

lemma getLogger_fields [simp]:
  "custom_name (snd (getLogger name st)) = custom_name st"
  "LOG_level (snd (getLogger name st)) = LOG_level st"
  "stdout (snd (getLogger name st)) = stdout st"
  "root (snd (getLogger name st)) = root st"
proof -
  obtain ps ph where s: "snd (getLogger name st) =
     st\<lparr>loggerDict :=
          (if name = [] \<or> name = ''root'' \<or> map_of (loggerDict st) name \<noteq> None
           then loggerDict st else loggerDict st @ [(name, new_logger)]),
        parents := ps, placeholders := ph\<rparr>"
    using getLogger_shape by blast
  show "custom_name (snd (getLogger name st)) = custom_name st"
    "LOG_level (snd (getLogger name st)) = LOG_level st"
    "stdout (snd (getLogger name st)) = stdout st"
    "root (snd (getLogger name st)) = root st"
    by (simp_all add: s)
qed

lemma create_logger_fields [simp]:
  "custom_name (snd (LOG_create_logger name st)) = custom_name st"
  "LOG_level (snd (LOG_create_logger name st)) = LOG_level st"
  "stdout (snd (LOG_create_logger name st)) = stdout st"
  by (simp_all add: LOG_create_logger_def addHandler_def case_prod_beta)

subsection \<open>Handlers reached and records written\<close>

lemma Formatter_format_Some: "\<exists>s. Formatter_format e name fn msg = Some s"
  by (simp add: Formatter_format_def template_line)

lemma chain_head:
  "lookup_logger st lg = Some l \<Longrightarrow> \<exists>ls. chain st lg = l # ls"
  by (cases lg) (auto split: logger_ref.splits)


lemma reached_create:
  "reached_handlers (chain (snd (LOG_create_logger name st)) (fst (getLogger name st))) =
     handlers (attach (case lookup_logger st (fst (getLogger name st)) of Some l \<Rightarrow> l | None \<Rightarrow> new_logger))"
proof -
  let ?l = "attach (case lookup_logger st (fst (getLogger name st)) of Some l \<Rightarrow> l | None \<Rightarrow> new_logger)"
  have "lookup_logger (snd (LOG_create_logger name st)) (fst (getLogger name st)) = Some ?l"
    using create_logger_lookup [of name st] by (simp add: create_logger_ref)
  then obtain ls where "chain (snd (LOG_create_logger name st)) (fst (getLogger name st)) = ?l # ls"
    using chain_head by blast
  moreover have "\<not> propagate ?l" by (simp add: attach_def)
  ultimately show ?thesis by simp
qed

lemma count_list_member: "x \<in> set xs \<Longrightarrow> 1 \<le> count_list xs x"
  by (induction xs) auto

lemma count_attach:
  "count_list (handlers (attach l)) LOG_handler = max 1 (count_list (handlers l) LOG_handler)"
  using count_list_member [of LOG_handler "handlers l"]
  by (auto simp: attach_def max_def)

lemma Logger_call_eq:
  "map Some (stdout (Logger_call fn e msg lg st)) =
     map Some (stdout st) @
       (if isEnabledFor st lg (levelno fn)
        then replicate (count_list (reached_handlers (chain st lg)) LOG_handler)
               (Formatter_format e (logger_name lg) fn msg)
        else [])"
proof -
  obtain s where s: "Formatter_format e (logger_name lg) fn msg = Some s"
    using Formatter_format_Some by blast
  show ?thesis
    by (simp add: Logger_call_def callHandlers_def fold_handle [OF s] s)
qed

lemma Logger_call_rest:
  "custom_name (Logger_call fn e msg lg st) = custom_name st"
  "LOG_level (Logger_call fn e msg lg st) = LOG_level st"
  "root (Logger_call fn e msg lg st) = root st"
  "loggerDict (Logger_call fn e msg lg st) = loggerDict st"
proof -
  obtain s where s: "Formatter_format e (logger_name lg) fn msg = Some s"
    using Formatter_format_Some by blast
  show "custom_name (Logger_call fn e msg lg st) = custom_name st"
    "LOG_level (Logger_call fn e msg lg st) = LOG_level st"
    "root (Logger_call fn e msg lg st) = root st"
    "loggerDict (Logger_call fn e msg lg st) = loggerDict st"
    by (simp_all add: Logger_call_def callHandlers_def fold_handle [OF s])
qed


subsection \<open>The invariant of the reachable states\<close>

lemma list_all_map_entry:
  "list_all P (map snd al) \<Longrightarrow> (\<And>l. P l \<Longrightarrow> P (f l)) \<Longrightarrow> list_all P (map snd (AList.map_entry k f al))"
  by (induction al) auto

lemma facade_getLogger: "facade_only st \<Longrightarrow> facade_only (snd (getLogger name st))"
proof -
  assume a: "facade_only st"
  obtain ps ph where "snd (getLogger name st) =
     st\<lparr>loggerDict :=
          (if name = [] \<or> name = ''root'' \<or> map_of (loggerDict st) name \<noteq> None
           then loggerDict st else loggerDict st @ [(name, new_logger)]),
        parents := ps, placeholders := ph\<rparr>"
    using getLogger_shape by blast
  then show ?thesis
    using a by (auto simp: facade_only_def new_logger_def)
qed

lemma facade_modify:
  assumes "facade_only st"
    and "\<And>l. count_list (handlers l) LOG_handler \<le> 1 \<Longrightarrow> count_list (handlers (f l)) LOG_handler \<le> 1"
    and "\<And>l. lg \<noteq> Root \<Longrightarrow> level l = 0 \<Longrightarrow> level (f l) = 0"
  shows "facade_only (modify_logger lg f st)"
proof (cases lg)
  case Root
  then show ?thesis using assms(1,2) by (simp add: facade_only_def)
next
  case (Named n)
  then show ?thesis using assms
    by (auto simp: facade_only_def intro!: list_all_map_entry)
qed

lemma facade_create_logger: "facade_only st \<Longrightarrow> facade_only (snd (LOG_create_logger name st))"
  by (auto simp: LOG_create_logger_def addHandler_def split: prod.splits
      intro!: facade_modify dest: facade_getLogger [where name = name] count_notin)

subsection \<open>Name resolution in \<^verbatim>\<open>_log\<close>\<close>

lemma caller_name_ok:
  "inspect_stack e = Inr stack \<Longrightarrow> 2 < length stack \<Longrightarrow>
   getmodule e (frame (stack ! 2)) = Inr module \<Longrightarrow>
   caller_name e =
     Inr ((case module of Some m \<Rightarrow> m | None \<Rightarrow> []) @ '':'' @ func_name (stack ! 2) @ '':'' @
          str_int (lineno (stack ! 2)))"
  by (simp add: caller_name_def Let_def)

lemma caller_name_fails:
  "(\<exists>ex. inspect_stack e = Inl ex) \<or>
   (\<exists>stack. inspect_stack e = Inr stack \<and>
      (length stack \<le> 2 \<or> (\<exists>ex. getmodule e (frame (stack ! 2)) = Inl ex))) \<Longrightarrow>
   \<exists>ex. caller_name e = Inl ex"
  by (auto simp: caller_name_def Let_def)

lemma LOG_log_plain:
  "custom_name st = None \<Longrightarrow>
   LOG_log fn e msg st =
     (case LOG_create_logger (case caller_name e of Inr n \<Rightarrow> n | Inl ex \<Rightarrow> ''HolmesV'') st of
        (lg, st2) \<Rightarrow> Logger_call fn e msg lg st2)"
  by (simp add: LOG_log_def resolve_name_def split: sum.splits)

lemma LOG_log_custom_name: "custom_name (LOG_log fn e msg st) = None"
proof -
  have "custom_name (snd (resolve_name e st)) = None"
    by (simp add: resolve_name_def split: option.splits sum.splits)
  then show ?thesis
    by (simp add: LOG_log_def case_prod_beta Logger_call_rest)
qed

lemma LOG_log_stdout:
  "map Some (stdout (LOG_log fn e msg st)) =
     map Some (stdout st) @
       (if isEnabledFor (snd (LOG_create_logger (fst (resolve_name e st)) (snd (resolve_name e st))))
             (fst (getLogger (fst (resolve_name e st)) (snd (resolve_name e st)))) (levelno fn)
        then replicate
               (max 1 (count_list
                  (handlers (case lookup_logger (snd (resolve_name e st))
                                   (fst (getLogger (fst (resolve_name e st)) (snd (resolve_name e st)))) of
                               Some l \<Rightarrow> l | None \<Rightarrow> new_logger)) LOG_handler))
               (Formatter_format e
                  (logger_name (fst (getLogger (fst (resolve_name e st)) (snd (resolve_name e st))))) fn msg)
        else [])"
proof -
  have "stdout (snd (resolve_name e st)) = stdout st"
    by (simp add: resolve_name_def split: option.splits sum.splits)
  then show ?thesis
    by (simp add: LOG_log_def case_prod_beta Logger_call_eq reached_create count_attach
        create_logger_ref)
qed

subsection \<open>The name of the logger\<close>

text \<open>
  C1, as the code has it. A severity call made while no one-shot name is set, whose stack
  inspection succeeds (the stack has an entry 2 and the lookup of its module returns),
  acquires the logger named by the caller's module name, \<open>:\<close>, the caller's function name,
  \<open>:\<close> and the caller's line number; the module part is empty when the frame has no module.
\<close>

theorem caller_name_when_inspection_succeeds:
  assumes "custom_name st = None"
    and "inspect_stack e = Inr stack"
    and "2 < length stack"
    and "getmodule e (frame (stack ! 2)) = Inr module"
    and "name = (case module of Some m \<Rightarrow> m | None \<Rightarrow> []) @ '':'' @ func_name (stack ! 2) @
                '':'' @ str_int (lineno (stack ! 2))"
  shows "resolve_name e st = (name, st) \<and>
     LOG_debug e msg st =
       (case LOG_create_logger name st of (lg, st2) \<Rightarrow> Logger_call Logger_debug e msg lg st2) \<and>
     LOG_info e msg st =
       (case LOG_create_logger name st of (lg, st2) \<Rightarrow> Logger_call Logger_info e msg lg st2) \<and>
     LOG_warning e msg st =
       (case LOG_create_logger name st of (lg, st2) \<Rightarrow> Logger_call Logger_warning e msg lg st2) \<and>
     LOG_error e msg st =
       (case LOG_create_logger name st of (lg, st2) \<Rightarrow> Logger_call Logger_error e msg lg st2) \<and>
     LOG_exception e msg st =
       (case LOG_create_logger name st of (lg, st2) \<Rightarrow> Logger_call Logger_exception e msg lg st2)"
proof -
  have n: "caller_name e = Inr name"
    using caller_name_ok [OF assms(2,3,4)] assms(5) by simp
  have r: "resolve_name e st = (name, st)"
    using assms(1) n by (simp add: resolve_name_def)
  have "make_log_method fn e msg st =
      (case LOG_create_logger name st of (lg, st2) \<Rightarrow> Logger_call fn e msg lg st2)" for fn
    using r by (simp add: make_log_method_def LOG_log_def)
  then show ?thesis
    using r by (simp add: LOG_debug_def LOG_info_def LOG_warning_def LOG_error_def LOG_exception_def)
qed

theorem caller_name_when_inspection_succeeds_witness:
  "custom_name initial_state = None \<and>
   inspect_stack caller_env = Inr caller_stack \<and>
   2 < length caller_stack \<and>
   getmodule caller_env (frame (caller_stack ! 2)) = Inr (Some ''mymod'') \<and>
   resolve_name caller_env initial_state = (''mymod:myfunc:42'', initial_state) \<and>
   LOG_warning caller_env ''hello'' initial_state =
     (case LOG_create_logger ''mymod:myfunc:42'' initial_state of
        (lg, st2) \<Rightarrow> Logger_call Logger_warning caller_env ''hello'' lg st2)"
proof -
  have h1: "custom_name initial_state = None" by (simp add: initial_state_def)
  have h2: "inspect_stack caller_env = Inr caller_stack" by (simp add: caller_env_def)
  have h3: "2 < length caller_stack" by (simp add: caller_stack_def)
  have h4: "getmodule caller_env (frame (caller_stack ! 2)) = Inr (Some ''mymod'')"
    by (simp add: caller_env_def caller_stack_def)
  have h5: "''mymod:myfunc:42'' =
      (case Some ''mymod'' of Some m \<Rightarrow> m | None \<Rightarrow> []) @ '':'' @ func_name (caller_stack ! 2) @
      '':'' @ str_int (lineno (caller_stack ! 2))"
    by (simp add: caller_stack_def str_int_def str_nat.simps digit_char_def)
  show ?thesis
    using caller_name_when_inspection_succeeds [OF h1 h2 h3 h4 h5, of "''hello''"] h1 h2 h3 h4
    by simp
qed

text \<open>
  C1 as stated fails: the caller's frame is \<^verbatim>\<open>myfunc\<close> at line 42, no one-shot name is
  set, and the lookup of the frame's module raises. The name is then \<^verbatim>\<open>HolmesV\<close>, and
  the logger acquired is the one of that name.
\<close>

theorem caller_name_counterexample:
  "custom_name initial_state = None \<and>
   inspect_stack failing_env = Inr caller_stack \<and>
   func_name (caller_stack ! 2) = ''myfunc'' \<and>
   lineno (caller_stack ! 2) = 42 \<and>
   fst (resolve_name failing_env initial_state) = ''HolmesV'' \<and>
   map fst (loggerDict (LOG_warning failing_env ''hello'' initial_state)) = [''HolmesV'']"
  by (simp add: initial_state_def failing_env_def caller_env_def caller_stack_def
      resolve_name_def caller_name_def LOG_warning_def make_log_method_def LOG_log_def
      LOG_create_logger_def getLogger_def addHandler_def Logger_call_rest case_prod_beta
      fixupParents_def fixup_from.simps)

text \<open>
  C9. When the stack walk succeeds and \<^verbatim>\<open>inspect.getmodule\<close> returns no module for the
  caller's frame, the module part of the name is empty: the name is \<open>:\<close>, the function
  name, \<open>:\<close> and the line number, and not the fallback \<^verbatim>\<open>HolmesV\<close>.
\<close>

theorem empty_module_part_without_module:
  assumes "custom_name st = None"
    and "inspect_stack e = Inr stack"
    and "2 < length stack"
    and "getmodule e (frame (stack ! 2)) = Inr None"
  shows "fst (resolve_name e st) = '':'' @ func_name (stack ! 2) @ '':'' @ str_int (lineno (stack ! 2)) \<and>
     fst (resolve_name e st) \<noteq> ''HolmesV'' \<and>
     make_log_method fn e msg st =
       (case LOG_create_logger ('':'' @ func_name (stack ! 2) @ '':'' @ str_int (lineno (stack ! 2))) st of
          (lg, st2) \<Rightarrow> Logger_call fn e msg lg st2)"
proof -
  have n: "caller_name e = Inr ('':'' @ func_name (stack ! 2) @ '':'' @ str_int (lineno (stack ! 2)))"
    using caller_name_ok [OF assms(2,3,4)] by simp
  have r: "resolve_name e st = ('':'' @ func_name (stack ! 2) @ '':'' @ str_int (lineno (stack ! 2)), st)"
    using assms(1) n by (simp add: resolve_name_def)
  show ?thesis
    using r by (simp add: make_log_method_def LOG_log_def)
qed

theorem empty_module_part_without_module_witness:
  "custom_name initial_state = None \<and>
   inspect_stack no_module_env = Inr caller_stack \<and>
   2 < length caller_stack \<and>
   getmodule no_module_env (frame (caller_stack ! 2)) = Inr None \<and>
   fst (resolve_name no_module_env initial_state) = '':myfunc:42'' \<and>
   fst (resolve_name no_module_env initial_state) \<noteq> ''HolmesV''"
proof -
  have h1: "custom_name initial_state = None" by (simp add: initial_state_def)
  have h2: "inspect_stack no_module_env = Inr caller_stack"
    by (simp add: no_module_env_def caller_env_def)
  have h3: "2 < length caller_stack" by (simp add: caller_stack_def)
  have h4: "getmodule no_module_env (frame (caller_stack ! 2)) = Inr None"
    by (simp add: no_module_env_def)
  have s: "str_int (lineno (caller_stack ! 2)) = ''42''"
    by (simp add: caller_stack_def str_int_def str_nat.simps digit_char_def)
  have f: "func_name (caller_stack ! 2) = ''myfunc''" by (simp add: caller_stack_def)
  show ?thesis
    using empty_module_part_without_module [OF h1 h2 h3 h4] h1 h2 h3 h4 s f by simp
qed

text \<open>
  C5. When the stack inspection fails while no one-shot name is set (\<^verbatim>\<open>inspect.stack()\<close>
  raises, the stack has no entry 2, or the lookup of the module raises), the call does not
  raise: the name is the fixed \<^verbatim>\<open>HolmesV\<close>, the logger of that name is acquired and the
  severity method runs on it; a call that the logger's level lets through writes the record
  under that name.
\<close>

theorem sentinel_name_when_inspection_fails:
  assumes "custom_name st = None"
    and "(\<exists>ex. inspect_stack e = Inl ex) \<or>
         (\<exists>stack. inspect_stack e = Inr stack \<and>
            (length stack \<le> 2 \<or> (\<exists>ex. getmodule e (frame (stack ! 2)) = Inl ex)))"
  shows "resolve_name e st = (''HolmesV'', st) \<and>
     make_log_method fn e msg st =
       (case LOG_create_logger ''HolmesV'' st of (lg, st2) \<Rightarrow> Logger_call fn e msg lg st2) \<and>
     (isEnabledFor (snd (LOG_create_logger ''HolmesV'' st)) (Named ''HolmesV'') (levelno fn) \<longrightarrow>
        (\<exists>k. map Some (stdout (make_log_method fn e msg st)) =
           map Some (stdout st) @ replicate (Suc k) (Formatter_format e ''HolmesV'' fn msg)))"
proof -
  obtain ex where n: "caller_name e = Inl ex"
    using caller_name_fails [OF assms(2)] by blast
  have r: "resolve_name e st = (''HolmesV'', st)"
    using assms(1) n by (simp add: resolve_name_def)
  have g: "fst (getLogger ''HolmesV'' st) = Named ''HolmesV''"
    by (simp add: getLogger_ref)
  have "\<exists>k. max 1 m = Suc k" for m :: nat
    by (cases m) (auto simp: max_def)
  then have emit: "isEnabledFor (snd (LOG_create_logger ''HolmesV'' st)) (Named ''HolmesV'') (levelno fn) \<longrightarrow>
        (\<exists>k. map Some (stdout (LOG_log fn e msg st)) =
           map Some (stdout st) @ replicate (Suc k) (Formatter_format e ''HolmesV'' fn msg))"
    using LOG_log_stdout [of fn e msg st] by (simp add: r g del: replicate_Suc)
  show ?thesis
    using r emit by (simp add: make_log_method_def LOG_log_def del: replicate_Suc)
qed

theorem sentinel_name_when_inspection_fails_witness:
  "custom_name initial_state = None \<and>
   inspect_stack failing_env = Inr caller_stack \<and>
   getmodule failing_env (frame (caller_stack ! 2)) = Inl (OtherException ''ImportError'') \<and>
   resolve_name failing_env initial_state = (''HolmesV'', initial_state) \<and>
   isEnabledFor (snd (LOG_create_logger ''HolmesV'' initial_state)) (Named ''HolmesV'')
     (levelno Logger_warning) \<and>
   (\<exists>k. map Some (stdout (make_log_method Logger_warning failing_env ''hello'' initial_state)) =
      map Some (stdout initial_state) @
        replicate (Suc k) (Formatter_format failing_env ''HolmesV'' Logger_warning ''hello''))"
proof -
  have h1: "custom_name initial_state = None" by (simp add: initial_state_def)
  have h2: "inspect_stack failing_env = Inr caller_stack"
    by (simp add: failing_env_def caller_env_def)
  have h3: "getmodule failing_env (frame (caller_stack ! 2)) = Inl (OtherException ''ImportError'')"
    by (simp add: failing_env_def)
  have h: "(\<exists>ex. inspect_stack failing_env = Inl ex) \<or>
         (\<exists>stack. inspect_stack failing_env = Inr stack \<and>
            (length stack \<le> 2 \<or> (\<exists>ex. getmodule failing_env (frame (stack ! 2)) = Inl ex)))"
    using h2 h3 by blast
  have en: "isEnabledFor (snd (LOG_create_logger ''HolmesV'' initial_state)) (Named ''HolmesV'')
     (levelno Logger_warning)"
    by (simp add: isEnabledFor_def getEffectiveLevel_def LOG_create_logger_def getLogger_def
        addHandler_def initial_state_def new_logger_def fixupParents_def fixup_from.simps
        parent_of_def)
  show ?thesis
    using sentinel_name_when_inspection_fails [OF h1 h, of Logger_warning "''hello''"] h1 h2 h3 en
    by blast
qed

subsection \<open>The one-shot name\<close>

text \<open>
  C10. \<^verbatim>\<open>LOG(None)\<close> leaves the override unset, since \<^verbatim>\<open>_log\<close> tests it against
  \<^verbatim>\<open>None\<close>: the next severity call takes its name from the stack (or the fallback), as a
  call without any \<^verbatim>\<open>LOG(name)\<close> before it does.
\<close>

theorem none_name_leaves_override_unset:
  "custom_name (LOG_new None st) = None \<and>
   resolve_name e (LOG_new None st) =
     ((case caller_name e of Inr n \<Rightarrow> n | Inl ex \<Rightarrow> ''HolmesV''), LOG_new None st) \<and>
   make_log_method fn e msg (LOG_new None st) =
     (case LOG_create_logger (case caller_name e of Inr n \<Rightarrow> n | Inl ex \<Rightarrow> ''HolmesV'')
             (LOG_new None st) of
        (lg, st2) \<Rightarrow> Logger_call fn e msg lg st2)"
proof -
  have c: "custom_name (LOG_new None st) = None" by (simp add: LOG_new_def)
  have r: "resolve_name e (LOG_new None st) =
      ((case caller_name e of Inr n \<Rightarrow> n | Inl ex \<Rightarrow> ''HolmesV''), LOG_new None st)"
    using c by (simp add: resolve_name_def split: sum.splits)
  show ?thesis using c r LOG_log_plain [OF c] by (simp add: make_log_method_def)
qed

text \<open>
  C2. The override is one optional value, so at most one is live. After \<^verbatim>\<open>LOG(c)\<close> the
  next severity call acquires the logger named \<open>c\<close> with the override cleared before the
  logger is created; every severity call leaves the override unset; and the call after it
  takes its name from the stack, whatever \<open>c\<close> was.
\<close>

theorem custom_name_one_shot:
  "custom_name (LOG_new (Some c) st) = Some c \<and>
   resolve_name e (LOG_new (Some c) st) = (c, st\<lparr>custom_name := None\<rparr>) \<and>
   make_log_method fn e msg (LOG_new (Some c) st) =
     (case LOG_create_logger c (st\<lparr>custom_name := None\<rparr>) of
        (lg, st2) \<Rightarrow> Logger_call fn e msg lg st2) \<and>
   custom_name (make_log_method fn e msg st') = None \<and>
   resolve_name e' (make_log_method fn e msg (LOG_new (Some c) st)) =
     ((case caller_name e' of Inr n \<Rightarrow> n | Inl ex \<Rightarrow> ''HolmesV''),
      make_log_method fn e msg (LOG_new (Some c) st))"
proof -
  have r: "resolve_name e (LOG_new (Some c) st) = (c, st\<lparr>custom_name := None\<rparr>)"
    by (simp add: resolve_name_def LOG_new_def)
  have cleared: "custom_name (make_log_method fn e msg s) = None" for s
    by (simp add: make_log_method_def LOG_log_custom_name)
  have later: "resolve_name e' (make_log_method fn e msg (LOG_new (Some c) st)) =
     ((case caller_name e' of Inr n \<Rightarrow> n | Inl ex \<Rightarrow> ''HolmesV''),
      make_log_method fn e msg (LOG_new (Some c) st))"
    using cleared [of "LOG_new (Some c) st"] by (simp add: resolve_name_def split: sum.splits)
  show ?thesis using r cleared later
    by (simp add: make_log_method_def LOG_log_def LOG_new_def)
qed

lemma attach_fields [simp]:
  "level (attach l) = level l"
  "propagate (attach l) = False"
  "LOG_handler \<in> set (handlers (attach l))"
  by (simp_all add: attach_def)

lemma attach_idem [simp]: "attach (attach l) = attach l"
  by (simp add: attach_def)

lemma create_logger_root:
  "fst (getLogger name st) = Root \<Longrightarrow> root (snd (LOG_create_logger name st)) = attach (root st)"
  using create_logger_lookup [of name st] by (simp add: create_logger_ref)

lemma create_logger_root_level: "level (root (snd (LOG_create_logger name st))) = level (root st)"
proof (cases "fst (getLogger name st)")
  case Root
  then show ?thesis by (simp add: create_logger_root)
next
  case (Named n)
  then have "lookup_logger (snd (LOG_create_logger name st)) Root = lookup_logger st Root"
    by (intro create_logger_other) simp
  then show ?thesis by simp
qed

subsection \<open>Logger acquisition\<close>

text \<open>
  C7, as the code has it. \<^verbatim>\<open>create_logger(name)\<close> returns the logger that
  \<^verbatim>\<open>logging.getLogger(name)\<close> gives (the logger of that exact name, or the root logger for
  the empty name and for the name \<^verbatim>\<open>root\<close>), switches its propagation off and calls
  \<^verbatim>\<open>addHandler\<close> with the shared handler without a check of its own. \<^verbatim>\<open>addHandler\<close>
  appends a handler only when the logger does not hold it yet, so the logger holds the
  shared handler once if it held it at most once before, and a repeated acquisition of
  the same name leaves the logger as the first one left it.
\<close>

theorem create_logger_attaches_once:
  "fst (LOG_create_logger name st) = fst (getLogger name st) \<and>
   fst (getLogger name st) = (if name = [] \<or> name = ''root'' then Root else Named name) \<and>
   lookup_logger (snd (LOG_create_logger name st)) (fst (LOG_create_logger name st)) =
     Some (attach (case lookup_logger st (fst (getLogger name st)) of
                     Some l \<Rightarrow> l | None \<Rightarrow> new_logger)) \<and>
   propagate (attach l) = False \<and>
   count_list (handlers (attach l)) LOG_handler = max 1 (count_list (handlers l) LOG_handler) \<and>
   lookup_logger (snd (LOG_create_logger name (snd (LOG_create_logger name st))))
       (fst (LOG_create_logger name st)) =
     lookup_logger (snd (LOG_create_logger name st)) (fst (LOG_create_logger name st))"
proof -
  let ?st1 = "snd (LOG_create_logger name st)"
  have same: "fst (getLogger name ?st1) = fst (getLogger name st)"
    by (simp add: getLogger_ref)
  have "lookup_logger (snd (LOG_create_logger name ?st1)) (fst (getLogger name st)) =
      lookup_logger ?st1 (fst (getLogger name st))"
    using create_logger_lookup [of name ?st1] create_logger_lookup [of name st]
    by (simp add: create_logger_ref same)
  then show ?thesis
    using create_logger_lookup [of name st]
    by (simp add: create_logger_ref getLogger_ref count_attach)
qed

text \<open>
  C7 as stated fails: after two acquisitions of the name \<^verbatim>\<open>a\<close> the logger holds the
  shared handler once, not twice.
\<close>

theorem repeated_acquisition_counterexample:
  "lookup_logger (snd (LOG_create_logger ''a'' (snd (LOG_create_logger ''a'' initial_state))))
     (Named ''a'') = Some \<lparr>level = 0, propagate = False, handlers = [LOG_handler]\<rparr>"
  by (simp add: LOG_create_logger_def getLogger_def addHandler_def initial_state_def new_logger_def
      fixupParents_def fixup_from.simps)

subsection \<open>Initialisation\<close>

lemma getLevelName_INFO: "getLevelName (PStr ''INFO'') = PInt 20"
  by (simp add: getLevelName_def levelToName_def nameToLevel_def)

lemma LOG_init_unfold:
  "LOG_init config st =
     setLevel Root
       (getLevelName (if truthy (case config ''log_level'' of None \<Rightarrow> PStr ''INFO'' | Some v \<Rightarrow> v)
                      then (case config ''log_level'' of None \<Rightarrow> PStr ''INFO'' | Some v \<Rightarrow> v)
                      else PStr ''INFO''))
       (snd (LOG_create_logger []
          (st\<lparr>LOG_level := getLevelName
                 (if truthy (case config ''log_level'' of None \<Rightarrow> PStr ''INFO'' | Some v \<Rightarrow> v)
                  then (case config ''log_level'' of None \<Rightarrow> PStr ''INFO'' | Some v \<Rightarrow> v)
                  else PStr ''INFO'')\<rparr>)))"
proof -
  have "fst (LOG_create_logger [] s) = Root" for s
    by (simp add: create_logger_ref getLogger_ref)
  then show ?thesis
    by (simp add: LOG_init_def Let_def case_prod_beta)
qed

text \<open>
  C4. When the configuration has no \<^verbatim>\<open>log_level\<close> key, or maps it to a falsy value,
  \<^verbatim>\<open>init()\<close> returns, \<^verbatim>\<open>LOG.level\<close> is the number of \<^verbatim>\<open>INFO\<close>, which is 20, and that
  level is set on the logger acquired for the empty name, which is the root logger.
\<close>

theorem init_defaults_to_INFO:
  assumes "config ''log_level'' = None \<or> (\<exists>v. config ''log_level'' = Some v \<and> \<not> truthy v)"
  shows "fst (LOG_init config st) = Inr () \<and>
     LOG_level (snd (LOG_init config st)) = getLevelName (PStr ''INFO'') \<and>
     getLevelName (PStr ''INFO'') = PInt 20 \<and>
     fst (LOG_create_logger [] st) = Root \<and>
     level (root (snd (LOG_init config st))) = 20"
proof -
  have lvl: "getLevelName (if truthy (case config ''log_level'' of None \<Rightarrow> PStr ''INFO'' | Some v \<Rightarrow> v)
                      then (case config ''log_level'' of None \<Rightarrow> PStr ''INFO'' | Some v \<Rightarrow> v)
                      else PStr ''INFO'') = PInt 20"
    using assms by (auto simp: getLevelName_INFO)
  show ?thesis
    by (simp add: LOG_init_unfold lvl setLevel_def getLevelName_INFO create_logger_ref getLogger_ref)
qed

theorem init_defaults_to_INFO_witness:
  "(Map.empty :: string \<rightharpoonup> py_value) ''log_level'' = None \<and>
   fst (LOG_init Map.empty initial_state) = Inr () \<and>
   LOG_level (snd (LOG_init Map.empty initial_state)) = PInt 20 \<and>
   level (root (snd (LOG_init Map.empty initial_state))) = 20 \<and>
   \<not> truthy (PStr []) \<and>
   fst (LOG_init (Map.empty(''log_level'' \<mapsto> PStr [])) initial_state) = Inr () \<and>
   level (root (snd (LOG_init (Map.empty(''log_level'' \<mapsto> PStr [])) initial_state))) = 20"
proof -
  have h1: "(Map.empty :: string \<rightharpoonup> py_value) ''log_level'' = None \<or>
      (\<exists>v. (Map.empty :: string \<rightharpoonup> py_value) ''log_level'' = Some v \<and> \<not> truthy v)"
    by simp
  have h2: "(Map.empty(''log_level'' \<mapsto> PStr [])) ''log_level'' = None \<or>
      (\<exists>v. (Map.empty(''log_level'' \<mapsto> PStr [])) ''log_level'' = Some v \<and> \<not> truthy v)"
    by simp
  show ?thesis
    using init_defaults_to_INFO [where config = Map.empty and st = initial_state, OF h1]
      init_defaults_to_INFO
        [where config = "Map.empty(''log_level'' \<mapsto> PStr [])" and st = initial_state, OF h2]
    by (simp add: getLevelName_INFO)
qed

lemma unknown_level_text: "map_of nameToLevel (''Level '' @ s) = None"
  by (simp add: nameToLevel_def)

text \<open>
  C8, as the code has it. For a level name that is not in the table of level names,
  \<^verbatim>\<open>getLevelName\<close> returns the string \<^verbatim>\<open>Level \<close> followed by the name, not a number;
  \<^verbatim>\<open>init()\<close> stores that string in \<^verbatim>\<open>LOG.level\<close>, and \<^verbatim>\<open>setLevel\<close> on the root logger
  raises \<^verbatim>\<open>ValueError\<close> for it, so \<^verbatim>\<open>init()\<close> raises and the root logger keeps its level.
\<close>

theorem init_raises_on_unknown_level_name:
  assumes "config ''log_level'' = Some (PStr s)"
    and "s \<noteq> []"
    and "map_of nameToLevel s = None"
  shows "getLevelName (PStr s) = PStr (''Level '' @ s) \<and>
     fst (LOG_init config st) = Inl (ValueError (''Level '' @ s)) \<and>
     LOG_level (snd (LOG_init config st)) = PStr (''Level '' @ s) \<and>
     level (root (snd (LOG_init config st))) = level (root st)"
proof -
  have g: "getLevelName (PStr s) = PStr (''Level '' @ s)"
    using assms(3) by (simp add: getLevelName_def)
  have c: "checkLevel (PStr (''Level '' @ s)) = Inl (ValueError (''Level '' @ s))"
    using unknown_level_text [of s] by simp
  show ?thesis
    using assms(1,2) g c
    by (simp add: LOG_init_unfold setLevel_def create_logger_root_level)
qed

theorem init_raises_on_unknown_level_name_witness:
  "(Map.empty(''log_level'' \<mapsto> PStr ''verbose'')) ''log_level'' = Some (PStr ''verbose'') \<and>
   ''verbose'' \<noteq> [] \<and>
   map_of nameToLevel ''verbose'' = None \<and>
   getLevelName (PStr ''verbose'') = PStr ''Level verbose'' \<and>
   fst (LOG_init (Map.empty(''log_level'' \<mapsto> PStr ''verbose'')) initial_state) =
     Inl (ValueError ''Level verbose'') \<and>
   level (root (snd (LOG_init (Map.empty(''log_level'' \<mapsto> PStr ''verbose'')) initial_state))) = 30"
proof -
  have h1: "(Map.empty(''log_level'' \<mapsto> PStr ''verbose'')) ''log_level'' = Some (PStr ''verbose'')"
    by simp
  have h2: "''verbose'' \<noteq> []" by simp
  have h3: "map_of nameToLevel ''verbose'' = None" by (simp add: nameToLevel_def)
  have r: "level (root initial_state) = 30" by (simp add: initial_state_def)
  show ?thesis
    using init_raises_on_unknown_level_name
        [where config = "Map.empty(''log_level'' \<mapsto> PStr ''verbose'')" and s = "''verbose''"
           and st = initial_state, OF h1 h2 h3] h3 r
    by simp
qed

text \<open>
  C8 as stated fails: with \<^verbatim>\<open>log_level\<close> set to the unknown name \<^verbatim>\<open>FOO\<close> the resolver
  returns the string \<^verbatim>\<open>Level FOO\<close> and \<^verbatim>\<open>init()\<close> raises \<^verbatim>\<open>ValueError\<close>.
\<close>

theorem unknown_level_name_counterexample:
  "getLevelName (PStr ''FOO'') = PStr ''Level FOO'' \<and>
   fst (LOG_init (Map.empty(''log_level'' \<mapsto> PStr ''FOO'')) initial_state) =
     Inl (ValueError ''Level FOO'')"
  by (simp add: LOG_init_unfold setLevel_def getLevelName_def levelToName_def nameToLevel_def)

subsection \<open>The format of a line\<close>















subsection \<open>The level set by \<^verbatim>\<open>init()\<close>\<close>

lemma facade_only_cong:
  "root a = root b \<Longrightarrow> loggerDict a = loggerDict b \<Longrightarrow> facade_only a = facade_only b"
  by (simp add: facade_only_def)

lemma resolve_name_rest:
  "root (snd (resolve_name e st)) = root st"
  "loggerDict (snd (resolve_name e st)) = loggerDict st"
  "LOG_level (snd (resolve_name e st)) = LOG_level st"
  "stdout (snd (resolve_name e st)) = stdout st"
  by (simp_all add: resolve_name_def split: option.splits sum.splits)

lemma facade_initial: "facade_only initial_state"
  by (simp add: facade_only_def initial_state_def)

lemma facade_new: "facade_only st \<Longrightarrow> facade_only (LOG_new name st)"
  by (simp add: facade_only_def LOG_new_def)

lemma facade_log: "facade_only st \<Longrightarrow> facade_only (LOG_log fn e msg st)"
proof -
  assume a: "facade_only st"
  let ?st1 = "snd (resolve_name e st)"
  let ?st2 = "snd (LOG_create_logger (fst (resolve_name e st)) ?st1)"
  have "facade_only ?st1"
    using a facade_only_cong [OF resolve_name_rest(1,2)] by blast
  then have "facade_only ?st2" by (rule facade_create_logger)
  moreover have "LOG_log fn e msg st =
      Logger_call fn e msg (fst (LOG_create_logger (fst (resolve_name e st)) ?st1)) ?st2"
    by (simp add: LOG_log_def case_prod_beta)
  ultimately show ?thesis
    using facade_only_cong [OF Logger_call_rest(3,4)] by metis
qed

lemma facade_init: "facade_only st \<Longrightarrow> facade_only (snd (LOG_init config st))"
proof -
  assume a: "facade_only st"
  have "facade_only (st\<lparr>LOG_level := v\<rparr>)" for v
    using a by (simp add: facade_only_def)
  then have "facade_only (snd (LOG_create_logger [] (st\<lparr>LOG_level := v\<rparr>)))" for v
    by (rule facade_create_logger)
  then show ?thesis
    by (auto simp: LOG_init_unfold setLevel_def facade_only_def split: sum.splits)
qed

lemma reachable_facade: "reachable st \<Longrightarrow> facade_only st"
  by (induction rule: reachable.induct)
    (simp_all add: facade_initial facade_new facade_log facade_init make_log_method_def)






















end
